theory Spec2Isabelle
  imports Complex_Main
begin

section \<open>The spinlock wait loop of \<open>s_lock.c\<close>\<close>

text \<open>
  The file \<open>src/backend/storage/lmgr/s_lock.c\<close> holds the platform-independent part of
  waiting for a spinlock: the function \<open>s_lock\<close>, which spins on \<open>TAS(lock)\<close>, sleeps with
  randomly growing delays and gives up through \<open>s_lock_stuck\<close>; the process-local
  estimate \<open>spins_per_delay\<close>; and the two routines \<open>set_spins_per_delay\<close> and
  \<open>recompute_spins_per_delay\<close> that exchange the estimate with shared memory.

  C's \<open>int\<close> is modelled by \<open>int\<close>. Inside \<open>s_lock\<close> no operation can leave the range of a
  32-bit \<open>int\<close>: \<open>spins\<close> is compared with \<open>spins_per_delay\<close> after every increment and
  reset when it reaches it, \<open>delays\<close> stops at 1001, \<open>cur_delay\<close> is at most 2000 before it
  is wrapped (in a valid environment), and the two adjustments of \<open>spins_per_delay\<close> are guarded. The one place
  where an overflow can happen is the weighted sum of \<open>recompute_spins_per_delay\<close>, and
  there the wrap-around is written out.
\<close>

subsection \<open>Constants (the \<open>#define\<close>s inside \<open>s_lock\<close>)\<close>

definition MIN_SPINS_PER_DELAY :: int where
  "MIN_SPINS_PER_DELAY = 10"

definition MAX_SPINS_PER_DELAY :: int where
  "MAX_SPINS_PER_DELAY = 1000"

definition NUM_DELAYS :: int where
  "NUM_DELAYS = 1000"

definition MIN_DELAY_MSEC :: int where
  "MIN_DELAY_MSEC = 1"

definition MAX_DELAY_MSEC :: int where
  "MAX_DELAY_MSEC = 1000"

lemmas s_lock_constants =
  MIN_SPINS_PER_DELAY_def MAX_SPINS_PER_DELAY_def NUM_DELAYS_def
  MIN_DELAY_MSEC_def MAX_DELAY_MSEC_def

subsection \<open>C arithmetic\<close>

text \<open>
  \<open>int32\<close> reads an integer as a 32-bit two's complement value. Signed overflow is
  undefined in C; the model takes the wrap-around that the usual compilers produce.
\<close>

definition int32 :: "int \<Rightarrow> int" where
  "int32 x = (x + 2147483648) mod 4294967296 - 2147483648"

text \<open>C's \<open>/\<close> on \<open>int\<close>: the quotient is truncated towards zero.\<close>

definition c_div :: "int \<Rightarrow> int \<Rightarrow> int" where
  "c_div a b = (if (a < 0) = (b < 0) then \<bar>a\<bar> div \<bar>b\<bar> else - (\<bar>a\<bar> div \<bar>b\<bar>))"

subsection \<open>The process-local estimate\<close>

text \<open>
  \<open>static int spins_per_delay\<close> is the only state of the file that outlives a call. It
  is a field of the backend's state here, so that the three functions that touch it take
  and return it.
\<close>

record backend =
  spins_per_delay :: int

text \<open>\<open>set_spins_per_delay\<close>: \<open>spins_per_delay = shared_spins_per_delay;\<close>\<close>

definition set_spins_per_delay :: "int \<Rightarrow> backend \<Rightarrow> backend" where
  "set_spins_per_delay shared_spins_per_delay b =
     b\<lparr>spins_per_delay := shared_spins_per_delay\<rparr>"

text \<open>
  \<open>recompute_spins_per_delay\<close>:
  \<open>return (shared_spins_per_delay * 15 + spins_per_delay) / 16;\<close>
\<close>

definition recompute_spins_per_delay :: "int \<Rightarrow> backend \<Rightarrow> int" where
  "recompute_spins_per_delay shared_spins_per_delay b =
     c_div (int32 (int32 (shared_spins_per_delay * 15) + spins_per_delay b)) 16"

subsection \<open>What \<open>s_lock\<close> takes from outside the file\<close>

text \<open>
  \<open>TAS(lock)\<close> is the hardware test-and-set: nonzero when the lock was already set, zero
  when the caller has just acquired it. The answers depend on the other processes, so the
  model takes them as a parameter: \<open>TAS e k\<close> holds iff the \<open>k\<close>-th evaluation of
  \<open>TAS(lock)\<close> in this call returns nonzero. In the same way \<open>random e k\<close> is the result
  of the \<open>k\<close>-th call of \<open>random()\<close>. \<open>MAX_RANDOM_VALUE\<close> is a macro of a header that is
  not part of the file, and is a parameter too. \<open>SPIN_DELAY()\<close> is a CPU hint with no
  effect on the variables.
\<close>

record environment =
  TAS :: "nat \<Rightarrow> bool"
  random :: "nat \<Rightarrow> int"
  MAX_RANDOM_VALUE :: int

text \<open>
  \<open>random()\<close> returns a value between 0 and \<open>MAX_RANDOM_VALUE\<close>; an environment that
  keeps this promise is called valid.
\<close>

definition valid_environment :: "environment \<Rightarrow> bool" where
  "valid_environment e \<longleftrightarrow>
     0 < MAX_RANDOM_VALUE e \<and> (\<forall>k. 0 \<le> random e k \<and> random e k \<le> MAX_RANDOM_VALUE e)"

text \<open>
  The local variables of \<open>s_lock\<close>, with three ghost fields that record what the call
  has done so far: the number of evaluations of \<open>TAS(lock)\<close>, the number of calls of
  \<open>random()\<close>, and the values of \<open>cur_delay\<close> at the calls \<open>pg_usleep(cur_delay * 1000L)\<close>
  in order, that is, the delays slept, in milliseconds.
\<close>

record s_lock_locals =
  spins :: int
  delays :: int
  cur_delay :: int
  tas_calls :: nat
  random_calls :: nat
  slept :: "int list"

text \<open>
  \<open>s_lock_stuck\<close> reports the lock and ends the process: \<open>exit(1)\<close> in the test program,
  \<open>elog(PANIC, ...)\<close> in the server. Control does not come back to \<open>s_lock\<close>, so the call
  is an error result that carries the locals at that moment.
\<close>

datatype s_lock_error = PANIC_stuck_spinlock s_lock_locals

definition s_lock_stuck :: "s_lock_locals \<Rightarrow> s_lock_error + s_lock_locals" where
  "s_lock_stuck l = Inl (PANIC_stuck_spinlock l)"

text \<open>
  Modelled from the spec: the macros \<open>Min\<close> and \<open>Max\<close> come from a header that is not part
  of the file; the spec reads the two uses as \<open>min\<close> and \<open>max\<close>.
\<close>

definition Min_macro :: "int \<Rightarrow> int \<Rightarrow> int" where
  "Min_macro x y = (if x < y then x else y)"

definition Max_macro :: "int \<Rightarrow> int \<Rightarrow> int" where
  "Max_macro x y = (if x > y then x else y)"

subsection \<open>The random increase of the delay\<close>

text \<open>
  The increment is computed in \<open>double\<close>:
  \<open>(int) (cur_delay * ((double) random() / (double) MAX_RANDOM_VALUE) + 0.5)\<close>.
  The cast \<open>(int)\<close> of a \<open>double\<close> drops the fraction, towards zero. The two
  conversions to \<open>double\<close> are exact. The model computes the division, the product and
  the sum in the reals, without the rounding of a \<open>double\<close> operation; \<open>random_fraction\<close>
  is the quotient.
\<close>

definition double_to_int :: "real \<Rightarrow> int" where
  "double_to_int x = (if 0 \<le> x then \<lfloor>x\<rfloor> else \<lceil>x\<rceil>)"

definition random_fraction :: "environment \<Rightarrow> int \<Rightarrow> real" where
  "random_fraction e r = real_of_int r / real_of_int (MAX_RANDOM_VALUE e)"

definition delay_increment :: "environment \<Rightarrow> int \<Rightarrow> int \<Rightarrow> int" where
  "delay_increment e c r = double_to_int (real_of_int c * random_fraction e r + 0.5)"

text \<open>
  The rounding left out above does not change the increment. A \<open>double\<close> operation
  returns its exact result \<open>x\<close> rounded, which is \<open>x * (1 + \<delta>)\<close> for a relative error
  \<open>\<delta>\<close> of at most \<open>1 / 2 ^ 53\<close> in absolute value. \<open>delay_increment_fl\<close> is the
  increment with the three operations rounded so, for any three such errors; the lemma
  \<open>delay_increment_fl_exact\<close> below shows that it is equal to \<open>delay_increment\<close> when
  \<open>MAX_RANDOM_VALUE\<close> is \<open>0x7FFFFFFF\<close>, the delay is between 1 and 1000 and the random
  number is between 0 and \<open>MAX_RANDOM_VALUE\<close>.
\<close>

definition unit_roundoff :: real where
  "unit_roundoff = 1 / 2 ^ 53"

definition fl :: "real \<Rightarrow> real \<Rightarrow> real" where
  "fl \<delta> x = x * (1 + \<delta>)"

definition delay_increment_fl ::
  "environment \<Rightarrow> real \<Rightarrow> real \<Rightarrow> real \<Rightarrow> int \<Rightarrow> int \<Rightarrow> int" where
  "delay_increment_fl e \<delta>1 \<delta>2 \<delta>3 c r =
     double_to_int
       (fl \<delta>3 (fl \<delta>2 (real_of_int c *
          fl \<delta>1 (real_of_int r / real_of_int (MAX_RANDOM_VALUE e))) + 0.5))"

text \<open>
  \<open>cur_delay += (int) (...); if (cur_delay > MAX_DELAY_MSEC) cur_delay = MIN_DELAY_MSEC;\<close>
  as a function of the old \<open>cur_delay\<close> and the random number drawn.
\<close>

definition increase_delay :: "environment \<Rightarrow> int \<Rightarrow> int \<Rightarrow> int" where
  "increase_delay e c r =
     (let c' = c + delay_increment e c r
      in if c' > MAX_DELAY_MSEC then MIN_DELAY_MSEC else c')"

subsection \<open>The body of \<open>s_lock\<close>\<close>

definition pg_usleep :: "int \<Rightarrow> s_lock_locals \<Rightarrow> s_lock_locals" where
  "pg_usleep d l = l\<lparr>slept := slept l @ [d]\<rparr>"

text \<open>
  The block after the stuck test: the first delay, the sleep, the random increase with
  its wrap, and \<open>spins = 0\<close>.
\<close>

definition block_process :: "environment \<Rightarrow> s_lock_locals \<Rightarrow> s_lock_locals" where
  "block_process e l =
     (let l1 = (if cur_delay l = 0 then l\<lparr>cur_delay := MIN_DELAY_MSEC\<rparr> else l);
          l2 = pg_usleep (cur_delay l1) l1;
          l3 = l2\<lparr>cur_delay := increase_delay e (cur_delay l2) (random e (random_calls l2)),
                  random_calls := Suc (random_calls l2)\<rparr>
      in l3\<lparr>spins := 0\<rparr>)"

text \<open>
  The loop \<open>while (TAS(lock)) { ... }\<close>, with \<open>spd\<close> the value of \<open>spins_per_delay\<close>, which
  the loop reads and does not change. Each round evaluates \<open>TAS\<close> once. The result is the
  locals at the exit of the loop, or the error of \<open>s_lock_stuck\<close>.
\<close>

function s_lock_loop ::
  "environment \<Rightarrow> int \<Rightarrow> s_lock_locals \<Rightarrow> s_lock_error + s_lock_locals" where
  "s_lock_loop e spd l =
     (if TAS e (tas_calls l) then
        (let l1 = l\<lparr>tas_calls := Suc (tas_calls l), spins := spins l + 1\<rparr> in
         if spins l1 \<ge> spd then
           (let l2 = l1\<lparr>delays := delays l1 + 1\<rparr> in
            if delays l2 > NUM_DELAYS then s_lock_stuck l2
            else s_lock_loop e spd (block_process e l2))
         else s_lock_loop e spd l1)
      else Inr (l\<lparr>tas_calls := Suc (tas_calls l)\<rparr>))"
  by pat_completeness auto

text \<open>
  The loop ends for every environment: a round either raises \<open>delays\<close>, which stops the
  loop above \<open>NUM_DELAYS\<close>, or leaves \<open>delays\<close> and brings \<open>spins\<close> closer to \<open>spd\<close>.
\<close>

termination
proof (relation "measures [\<lambda>(e, spd, l). nat (NUM_DELAYS + 1 - delays l),
                           \<lambda>(e, spd, l). nat (spd - spins l)]")
  show "wf (measures [\<lambda>(e, spd, l). nat (NUM_DELAYS + 1 - delays l),
                      \<lambda>(e :: environment, spd, l). nat (spd - spins l)])"
    by simp
next
  fix e :: environment and spd :: int and l l1 l2 :: s_lock_locals
  assume "l1 = l\<lparr>tas_calls := Suc (tas_calls l), spins := spins l + 1\<rparr>"
    and "l2 = l1\<lparr>delays := delays l1 + 1\<rparr>" and "\<not> NUM_DELAYS < delays l2"
  then show "((e, spd, block_process e l2), e, spd, l)
      \<in> measures [\<lambda>(e, spd, l). nat (NUM_DELAYS + 1 - delays l),
                  \<lambda>(e, spd, l). nat (spd - spins l)]"
    by (simp add: block_process_def pg_usleep_def Let_def)
next
  fix e :: environment and spd :: int and l l1 :: s_lock_locals
  assume "l1 = l\<lparr>tas_calls := Suc (tas_calls l), spins := spins l + 1\<rparr>"
    and "\<not> spd \<le> spins l1"
  then show "((e, spd, l1), e, spd, l)
      \<in> measures [\<lambda>(e, spd, l). nat (NUM_DELAYS + 1 - delays l),
                  \<lambda>(e, spd, l). nat (spd - spins l)]"
    by simp
qed

declare s_lock_loop.simps [simp del]

text \<open>The adjustment of \<open>spins_per_delay\<close> after the loop.\<close>

definition adjust_spins_per_delay :: "s_lock_locals \<Rightarrow> backend \<Rightarrow> backend" where
  "adjust_spins_per_delay l b =
     (if cur_delay l = 0 then
        (if spins_per_delay b < MAX_SPINS_PER_DELAY
         then b\<lparr>spins_per_delay := Min_macro (spins_per_delay b + 100) MAX_SPINS_PER_DELAY\<rparr>
         else b)
      else
        (if spins_per_delay b > MIN_SPINS_PER_DELAY
         then b\<lparr>spins_per_delay := Max_macro (spins_per_delay b - 1) MIN_SPINS_PER_DELAY\<rparr>
         else b))"

text \<open>\<open>int spins = 0; int delays = 0; int cur_delay = 0;\<close>\<close>

definition s_lock_entry :: s_lock_locals where
  "s_lock_entry =
     \<lparr>spins = 0, delays = 0, cur_delay = 0, tas_calls = 0, random_calls = 0, slept = []\<rparr>"

text \<open>
  \<open>s_lock\<close>: the loop, then the adjustment. A call that returns gives the backend with the
  new \<open>spins_per_delay\<close>, and the locals at the exit of the loop for the record of what
  the call did.
\<close>

definition s_lock ::
  "environment \<Rightarrow> backend \<Rightarrow> s_lock_error + (backend \<times> s_lock_locals)" where
  "s_lock e b =
     (case s_lock_loop e (spins_per_delay b) s_lock_entry of
        Inl err \<Rightarrow> Inl err
      | Inr l \<Rightarrow> Inr (adjust_spins_per_delay l b, l))"

subsection \<open>Invariants of the loop\<close>

text \<open>
  What holds of the locals whenever the loop condition is evaluated. The first invariant
  counts: \<open>delays\<close> sleeps have been made, each after \<open>max 1 spd\<close> failed tries, and
  \<open>spins\<close> failed tries since the last one. It needs nothing of the environment.
\<close>

definition counting_inv :: "int \<Rightarrow> s_lock_locals \<Rightarrow> bool" where
  "counting_inv spd l \<longleftrightarrow>
     0 \<le> delays l \<and> delays l \<le> NUM_DELAYS \<and> 0 \<le> spins l \<and> spins l < max 1 spd \<and>
     int (tas_calls l) = delays l * max 1 spd + spins l \<and>
     int (length (slept l)) = delays l \<and> random_calls l = length (slept l)"

text \<open>
  The second invariant is about the delay: \<open>cur_delay\<close> is 0 exactly as long as nothing
  has been slept, and otherwise it and every delay slept lie between \<open>MIN_DELAY_MSEC\<close>
  and \<open>MAX_DELAY_MSEC\<close>.
\<close>

definition delay_inv :: "s_lock_locals \<Rightarrow> bool" where
  "delay_inv l \<longleftrightarrow>
     (if slept l = [] then cur_delay l = 0 else MIN_DELAY_MSEC \<le> cur_delay l) \<and>
     cur_delay l \<le> MAX_DELAY_MSEC \<and>
     (\<forall>d \<in> set (slept l). MIN_DELAY_MSEC \<le> d \<and> d \<le> MAX_DELAY_MSEC)"

subsection \<open>The backoff sequencer of the specification\<close>

text \<open>
  The specification describes the delays by a step function of its own, the
  BackoffSequencer: if \<open>currentDelayMs\<close> is 0, set it to \<open>MIN_DELAY_MS\<close>; otherwise replace
  it by \<open>currentDelayMs + round(currentDelayMs * U)\<close>, and wrap back to \<open>MIN_DELAY_MS\<close> if
  the result exceeds \<open>MAX_DELAY_MS\<close>. The next definition follows these words, not the
  code; \<open>round\<close> rounds to the nearest integer, a half upwards.
\<close>

definition spec_backoff_step :: "int \<Rightarrow> real \<Rightarrow> int" where
  "spec_backoff_step currentDelayMs U =
     (if currentDelayMs = 0 then MIN_DELAY_MSEC
      else let d = currentDelayMs + round (real_of_int currentDelayMs * U)
           in if d > MAX_DELAY_MSEC then MIN_DELAY_MSEC else d)"

text \<open>
  The acquire loop of the specification advances the delay by one step and then sleeps
  that many milliseconds: the delays it sleeps from a current delay \<open>c\<close> on, given the
  fractions \<open>U\<close> of the successive steps.
\<close>

fun spec_sleeps :: "int \<Rightarrow> real list \<Rightarrow> int list" where
  "spec_sleeps c [] = []"
| "spec_sleeps c (U # Us) = spec_backoff_step c U # spec_sleeps (spec_backoff_step c U) Us"

text \<open>
  The fractions the code hands to these steps. The step out of 0 uses none, so its
  fraction \<open>U0\<close> is arbitrary; the step after the \<open>k\<close>-th sleep uses the \<open>k\<close>-th random
  number drawn. \<open>fractions e U0 n\<close> are the first \<open>n\<close> of them.
\<close>

definition fractions :: "environment \<Rightarrow> real \<Rightarrow> nat \<Rightarrow> real list" where
  "fractions e U0 n = take n (U0 # map (\<lambda>k. random_fraction e (random e k)) [0..<n])"

text \<open>
  The third invariant ties the code to the sequencer: once something has been slept, the
  delays slept followed by \<open>cur_delay\<close>, the delay to sleep next, are the sequencer's
  delays from 0 on.
\<close>

definition trace_inv :: "environment \<Rightarrow> real \<Rightarrow> s_lock_locals \<Rightarrow> bool" where
  "trace_inv e U0 l \<longleftrightarrow>
     random_calls l = length (slept l) \<and>
     (if slept l = [] then cur_delay l = 0
      else MIN_DELAY_MSEC \<le> cur_delay l \<and>
           slept l @ [cur_delay l] = spec_sleeps 0 (fractions e U0 (Suc (random_calls l))))"

subsection \<open>Example environments\<close>

text \<open>
  A lock that is never released, and a lock that is released after \<open>n\<close> failed tries.
  Both draw the same random number, a little above half of \<open>MAX_RANDOM_VALUE\<close>.
\<close>

definition always_locked :: environment where
  "always_locked = \<lparr>TAS = (\<lambda>k. True), random = (\<lambda>k. 1073741824), MAX_RANDOM_VALUE = 2147483647\<rparr>"

definition free_after :: "nat \<Rightarrow> environment" where
  "free_after n = \<lparr>TAS = (\<lambda>k. k < n), random = (\<lambda>k. 1073741824), MAX_RANDOM_VALUE = 2147483647\<rparr>"

section \<open>The rounding of the increment\<close>

lemma fl_bounds:
  assumes "\<bar>\<delta>\<bar> \<le> unit_roundoff" "0 \<le> x"
  shows "x * (1 - unit_roundoff) \<le> fl \<delta> x" "fl \<delta> x \<le> x * (1 + unit_roundoff)"
  using assms by (auto simp: fl_def intro!: mult_left_mono)

lemma fl_chain_lower:
  assumes d: "\<bar>\<delta>1\<bar> \<le> unit_roundoff" "\<bar>\<delta>2\<bar> \<le> unit_roundoff" "\<bar>\<delta>3\<bar> \<le> unit_roundoff"
    and x: "0 \<le> x" "x \<le> 1000"
  shows "x + 1 / 2 - 3001 * unit_roundoff \<le> fl \<delta>3 (fl \<delta>2 (fl \<delta>1 x) + 1 / 2)"
proof -
  let ?u = unit_roundoff
  have u: "0 \<le> ?u" "?u \<le> 1"
    by (simp_all add: unit_roundoff_def)
  have 1: "x * (1 - ?u) \<le> fl \<delta>1 x"
    using d(1) x(1) by (rule fl_bounds)
  have x1: "0 \<le> x * (1 - ?u)"
    using x(1) u by simp
  then have p1: "0 \<le> fl \<delta>1 x"
    using 1 by simp
  have "x * (1 - ?u) * (1 - ?u) \<le> fl \<delta>1 x * (1 - ?u)"
    using 1 u by (intro mult_right_mono) simp_all
  also have "\<dots> \<le> fl \<delta>2 (fl \<delta>1 x)"
    using d(2) p1 by (rule fl_bounds)
  finally have 2: "x * (1 - ?u) * (1 - ?u) \<le> fl \<delta>2 (fl \<delta>1 x)" .
  have x2: "0 \<le> x * (1 - ?u) * (1 - ?u)"
    using x1 u by simp
  then have p2: "0 \<le> fl \<delta>2 (fl \<delta>1 x) + 1 / 2"
    using 2 by simp
  have "(x * (1 - ?u) * (1 - ?u) + 1 / 2) * (1 - ?u) \<le> (fl \<delta>2 (fl \<delta>1 x) + 1 / 2) * (1 - ?u)"
    using 2 u by (intro mult_right_mono) simp_all
  also have "\<dots> \<le> fl \<delta>3 (fl \<delta>2 (fl \<delta>1 x) + 1 / 2)"
    using d(3) p2 by (rule fl_bounds)
  finally have 3: "(x * (1 - ?u) * (1 - ?u) + 1 / 2) * (1 - ?u) \<le> fl \<delta>3 (fl \<delta>2 (fl \<delta>1 x) + 1 / 2)" .
  have "(x * (1 - ?u) * (1 - ?u) + 1 / 2) * (1 - ?u) =
      x + 1 / 2 - (3 * x + 1 / 2) * ?u + x * ?u * ?u * (3 - ?u)"
    by (simp add: field_simps)
  moreover have "0 \<le> x * ?u * ?u * (3 - ?u)"
    using x(1) u by simp
  moreover have "(3 * x + 1 / 2) * ?u \<le> 3001 * ?u"
    using x(2) u by (intro mult_right_mono) simp_all
  ultimately show ?thesis
    using 3 by linarith
qed

lemma fl_chain_upper:
  assumes d: "\<bar>\<delta>1\<bar> \<le> unit_roundoff" "\<bar>\<delta>2\<bar> \<le> unit_roundoff" "\<bar>\<delta>3\<bar> \<le> unit_roundoff"
    and x: "0 \<le> x" "x \<le> 1000"
  shows "fl \<delta>3 (fl \<delta>2 (fl \<delta>1 x) + 1 / 2) \<le> x + 1 / 2 + 4001 * unit_roundoff"
proof -
  let ?u = unit_roundoff
  have u: "0 \<le> ?u" "?u \<le> 1 / 8"
    by (simp_all add: unit_roundoff_def)
  have 1: "fl \<delta>1 x \<le> x * (1 + ?u)"
    using d(1) x(1) by (rule fl_bounds)
  have "x * (1 - ?u) \<le> fl \<delta>1 x"
    using d(1) x(1) by (rule fl_bounds)
  moreover have "0 \<le> x * (1 - ?u)"
    using x(1) u by simp
  ultimately have p1: "0 \<le> fl \<delta>1 x"
    by simp
  have "fl \<delta>2 (fl \<delta>1 x) \<le> fl \<delta>1 x * (1 + ?u)"
    using d(2) p1 by (rule fl_bounds)
  also have "\<dots> \<le> x * (1 + ?u) * (1 + ?u)"
    using 1 u by (intro mult_right_mono) simp_all
  finally have 2: "fl \<delta>2 (fl \<delta>1 x) \<le> x * (1 + ?u) * (1 + ?u)" .
  have "fl \<delta>1 x * (1 - ?u) \<le> fl \<delta>2 (fl \<delta>1 x)"
    using d(2) p1 by (rule fl_bounds)
  moreover have "0 \<le> fl \<delta>1 x * (1 - ?u)"
    using p1 u by simp
  ultimately have p2: "0 \<le> fl \<delta>2 (fl \<delta>1 x) + 1 / 2"
    by simp
  have "fl \<delta>3 (fl \<delta>2 (fl \<delta>1 x) + 1 / 2) \<le> (fl \<delta>2 (fl \<delta>1 x) + 1 / 2) * (1 + ?u)"
    using d(3) p2 by (rule fl_bounds)
  also have "\<dots> \<le> (x * (1 + ?u) * (1 + ?u) + 1 / 2) * (1 + ?u)"
    using 2 u by (intro mult_right_mono) simp_all
  finally have 3: "fl \<delta>3 (fl \<delta>2 (fl \<delta>1 x) + 1 / 2) \<le> (x * (1 + ?u) * (1 + ?u) + 1 / 2) * (1 + ?u)" .
  have "(x * (1 + ?u) * (1 + ?u) + 1 / 2) * (1 + ?u) =
      x + 1 / 2 + (3 * x + 1 / 2) * ?u + x * ?u * (?u * (3 + ?u))"
    by (simp add: algebra_simps)
  moreover have "?u * (3 + ?u) \<le> 1"
    by (simp add: unit_roundoff_def)
  then have "x * ?u * (?u * (3 + ?u)) \<le> x * ?u * 1"
    using x(1) u by (intro mult_left_mono) simp_all
  moreover have "(3 * x + 1 / 2) * ?u + x * ?u * 1 = (4 * x + 1 / 2) * ?u"
    by (simp add: algebra_simps)
  moreover have "(4 * x + 1 / 2) * ?u \<le> 4001 * ?u"
    using x(2) u by (intro mult_right_mono) simp_all
  ultimately show ?thesis
    using 3 by linarith
qed

lemma fl_mult_left: "real_of_int c * fl \<delta> q = fl \<delta> (real_of_int c * q)"
  by (simp add: fl_def)

lemma delay_increment_fl_exact:
  assumes M: "MAX_RANDOM_VALUE e = 2147483647"
    and c: "1 \<le> c" "c \<le> 1000" and r: "0 \<le> r" "r \<le> MAX_RANDOM_VALUE e"
    and d: "\<bar>\<delta>1\<bar> \<le> unit_roundoff" "\<bar>\<delta>2\<bar> \<le> unit_roundoff" "\<bar>\<delta>3\<bar> \<le> unit_roundoff"
  shows "delay_increment_fl e \<delta>1 \<delta>2 \<delta>3 c r = delay_increment e c r"
proof -
  let ?M = "2147483647 :: int"
  define x where "x = real_of_int c * (real_of_int r / real_of_int ?M)"
  define y where "y = fl \<delta>3 (fl \<delta>2 (fl \<delta>1 x) + 1 / 2)"
  define n where "n = (2 * c * r + ?M) div (2 * ?M)"
  define m where "m = (2 * c * r + ?M) mod (2 * ?M)"
  have cr: "0 \<le> c * r" "c * r \<le> 1000 * ?M"
    using c r M mult_mono [of c 1000 r ?M] by simp_all
  have x0: "0 \<le> x"
    using c r by (simp add: x_def)
  have "x = real_of_int (c * r) / real_of_int ?M"
    by (simp add: x_def)
  also have "\<dots> \<le> real_of_int (1000 * ?M) / real_of_int ?M"
  proof (rule divide_right_mono)
    show "real_of_int (c * r) \<le> real_of_int (1000 * ?M)"
      using cr(2) by (simp only: of_int_le_iff)
  qed simp
  finally have x1: "x \<le> 1000"
    by simp
  have "odd (2 * c * r + ?M)"
    by simp
  moreover have "even m \<longleftrightarrow> even (2 * c * r + ?M)"
    unfolding m_def by (rule dvd_mod_iff) simp
  ultimately have "odd m"
    by blast
  then have "m \<noteq> 0" "m \<noteq> 2 * ?M"
    by auto
  moreover have "0 \<le> m" "m < 2 * ?M"
    by (simp_all add: m_def)
  ultimately have m: "1 \<le> m" "m \<le> 2 * ?M - 1"
    by simp_all
  have "2 * c * r + ?M = n * (2 * ?M) + m"
    by (simp add: n_def m_def)
  then have "real_of_int (2 * c * r + ?M) = real_of_int (n * (2 * ?M) + m)"
    by (simp only:)
  then have X: "x + 1 / 2 = real_of_int n + real_of_int m / 4294967294"
    by (simp add: x_def field_simps)
  have "1 / 4294967294 \<le> real_of_int m / 4294967294"
    using m(1) by (intro divide_right_mono) simp_all
  moreover have "real_of_int m / 4294967294 \<le> real_of_int (2 * ?M - 1) / 4294967294"
  proof (rule divide_right_mono)
    show "real_of_int m \<le> real_of_int (2 * ?M - 1)"
      using m(2) by (simp only: of_int_le_iff)
  qed simp
  ultimately have frac: "real_of_int n + 1 / 4294967294 \<le> x + 1 / 2"
    "x + 1 / 2 \<le> real_of_int n + 1 - 1 / 4294967294"
    using X by simp_all
  have u: "4001 * unit_roundoff < 1 / 4294967294" "0 \<le> unit_roundoff"
    by (simp_all add: unit_roundoff_def)
  have "x + 1 / 2 - 3001 * unit_roundoff \<le> y"
    unfolding y_def using d x0 x1 by (rule fl_chain_lower)
  then have lower: "real_of_int n < y"
    using frac(1) u by linarith
  have "y \<le> x + 1 / 2 + 4001 * unit_roundoff"
    unfolding y_def using d x0 x1 by (rule fl_chain_upper)
  then have upper: "y < real_of_int n + 1"
    using frac(2) u by linarith
  have n0: "0 \<le> n"
    using cr(1) by (simp add: n_def pos_imp_zdiv_nonneg_iff)
  have "\<lfloor>y\<rfloor> = n"
    using lower upper by (intro floor_unique) simp_all
  moreover have "0 \<le> y"
    using lower n0 by simp
  moreover have "\<lfloor>x + 1 / 2\<rfloor> = n"
    using frac u by (intro floor_unique) simp_all
  moreover have "0 \<le> x + 1 / 2"
    using x0 by simp
  ultimately have "double_to_int y = double_to_int (x + 1 / 2)"
    by (simp add: double_to_int_def)
  then show ?thesis
    by (simp add: delay_increment_fl_def delay_increment_def random_fraction_def
        fl_mult_left M x_def y_def)
qed

section \<open>The loop, case by case\<close>

lemma s_lock_loop_acquire:
  "\<not> TAS e (tas_calls l) \<Longrightarrow> s_lock_loop e spd l = Inr (l\<lparr>tas_calls := Suc (tas_calls l)\<rparr>)"
  by (subst s_lock_loop.simps) simp

lemma s_lock_loop_spin:
  "TAS e (tas_calls l) \<Longrightarrow> spins l + 1 < spd \<Longrightarrow>
   s_lock_loop e spd l = s_lock_loop e spd (l\<lparr>tas_calls := Suc (tas_calls l), spins := spins l + 1\<rparr>)"
  by (subst s_lock_loop.simps) (simp add: Let_def)

lemma s_lock_loop_block:
  "TAS e (tas_calls l) \<Longrightarrow> spd \<le> spins l + 1 \<Longrightarrow> delays l + 1 \<le> NUM_DELAYS \<Longrightarrow>
   s_lock_loop e spd l =
     s_lock_loop e spd (block_process e
       (l\<lparr>tas_calls := Suc (tas_calls l), spins := spins l + 1, delays := delays l + 1\<rparr>))"
  by (subst s_lock_loop.simps) (simp add: Let_def)

lemma s_lock_loop_stuck:
  "TAS e (tas_calls l) \<Longrightarrow> spd \<le> spins l + 1 \<Longrightarrow> NUM_DELAYS < delays l + 1 \<Longrightarrow>
   s_lock_loop e spd l =
     Inl (PANIC_stuck_spinlock
       (l\<lparr>tas_calls := Suc (tas_calls l), spins := spins l + 1, delays := delays l + 1\<rparr>))"
  by (subst s_lock_loop.simps) (simp add: Let_def s_lock_stuck_def)

lemma s_lock_loop_rule:
  assumes init: "I l"
    and spin: "\<And>l. I l \<Longrightarrow> TAS e (tas_calls l) \<Longrightarrow> spins l + 1 < spd \<Longrightarrow>
                 I (l\<lparr>tas_calls := Suc (tas_calls l), spins := spins l + 1\<rparr>)"
    and block: "\<And>l. I l \<Longrightarrow> TAS e (tas_calls l) \<Longrightarrow> spd \<le> spins l + 1 \<Longrightarrow>
                 delays l + 1 \<le> NUM_DELAYS \<Longrightarrow>
                 I (block_process e
                   (l\<lparr>tas_calls := Suc (tas_calls l), spins := spins l + 1, delays := delays l + 1\<rparr>))"
    and acquire: "\<And>l. I l \<Longrightarrow> \<not> TAS e (tas_calls l) \<Longrightarrow>
                 Q (Inr (l\<lparr>tas_calls := Suc (tas_calls l)\<rparr>))"
    and stuck: "\<And>l. I l \<Longrightarrow> TAS e (tas_calls l) \<Longrightarrow> spd \<le> spins l + 1 \<Longrightarrow>
                 NUM_DELAYS < delays l + 1 \<Longrightarrow>
                 Q (Inl (PANIC_stuck_spinlock
                   (l\<lparr>tas_calls := Suc (tas_calls l), spins := spins l + 1, delays := delays l + 1\<rparr>)))"
  shows "Q (s_lock_loop e spd l)"
  using assms
proof (induction e spd l rule: s_lock_loop.induct)
  case (1 e spd l)
  note init = "1.prems"(1) and spin = "1.prems"(2) and block = "1.prems"(3)
    and acquire = "1.prems"(4) and stuck = "1.prems"(5)
  show ?case
  proof (cases "TAS e (tas_calls l)")
    case False
    with init have "Q (Inr (l\<lparr>tas_calls := Suc (tas_calls l)\<rparr>))"
      by (rule acquire)
    with False show ?thesis
      by (simp add: s_lock_loop_acquire)
  next
    case tas: True
    show ?thesis
    proof (cases "spins l + 1 < spd")
      case True
      let ?l1 = "l\<lparr>tas_calls := Suc (tas_calls l), spins := spins l + 1\<rparr>"
      have "I ?l1"
        using init tas True by (rule spin)
      moreover have "\<not> spd \<le> spins ?l1"
        using True by simp
      ultimately have "Q (s_lock_loop e spd ?l1)"
        using "1.IH"(2) [OF tas refl] spin block acquire stuck by blast
      then show ?thesis
        using tas True by (simp add: s_lock_loop_spin)
    next
      case ge: False
      show ?thesis
      proof (cases "delays l + 1 \<le> NUM_DELAYS")
        case True
        let ?l1 = "l\<lparr>tas_calls := Suc (tas_calls l), spins := spins l + 1\<rparr>"
        let ?l2 = "l\<lparr>tas_calls := Suc (tas_calls l), spins := spins l + 1, delays := delays l + 1\<rparr>"
        have "I (block_process e ?l2)"
          using init tas ge True by (intro block) simp_all
        moreover have "spd \<le> spins ?l1" "?l2 = ?l1\<lparr>delays := delays ?l1 + 1\<rparr>"
          "\<not> NUM_DELAYS < delays ?l2"
          using ge True by simp_all
        ultimately have "Q (s_lock_loop e spd (block_process e ?l2))"
          using "1.IH"(1) [OF tas refl] spin block acquire stuck by blast
        then show ?thesis
          using tas ge True by (simp add: s_lock_loop_block)
      next
        case False
        with init tas ge have "Q (Inl (PANIC_stuck_spinlock
            (l\<lparr>tas_calls := Suc (tas_calls l), spins := spins l + 1, delays := delays l + 1\<rparr>)))"
          by (intro stuck) simp_all
        with False tas ge show ?thesis
          by (simp add: s_lock_loop_stuck)
      qed
    qed
  qed
qed

section \<open>The invariants hold\<close>

lemma block_process_fields [simp]:
  "spins (block_process e l) = 0"
  "delays (block_process e l) = delays l"
  "tas_calls (block_process e l) = tas_calls l"
  "random_calls (block_process e l) = Suc (random_calls l)"
  "slept (block_process e l) = slept l @ [if cur_delay l = 0 then MIN_DELAY_MSEC else cur_delay l]"
  "cur_delay (block_process e l) =
     increase_delay e (if cur_delay l = 0 then MIN_DELAY_MSEC else cur_delay l) (random e (random_calls l))"
  by (simp_all add: block_process_def pg_usleep_def Let_def)

lemma counting_inv_entry: "counting_inv spd s_lock_entry"
  by (simp add: counting_inv_def s_lock_entry_def NUM_DELAYS_def)

lemma counting_inv_spin:
  "counting_inv spd l \<Longrightarrow> spins l + 1 < spd \<Longrightarrow>
   counting_inv spd (l\<lparr>tas_calls := Suc (tas_calls l), spins := spins l + 1\<rparr>)"
  by (simp add: counting_inv_def)

lemma counting_inv_block:
  assumes "counting_inv spd l" "spd \<le> spins l + 1" "delays l + 1 \<le> NUM_DELAYS"
  shows "counting_inv spd (block_process e
           (l\<lparr>tas_calls := Suc (tas_calls l), spins := spins l + 1, delays := delays l + 1\<rparr>))"
proof -
  from assms have "spins l + 1 = max 1 spd"
    by (auto simp: counting_inv_def max_def)
  with assms show ?thesis
    by (simp add: counting_inv_def algebra_simps)
qed

lemma loop_counts:
  "counting_inv spd l0 \<Longrightarrow>
   (\<exists>l. s_lock_loop e spd l0 = Inl (PANIC_stuck_spinlock l) \<and> TAS e (tas_calls l - 1) \<and>
        delays l = NUM_DELAYS + 1 \<and> int (length (slept l)) = NUM_DELAYS \<and>
        int (tas_calls l) = (NUM_DELAYS + 1) * max 1 spd) \<or>
   (\<exists>l. s_lock_loop e spd l0 = Inr l \<and> \<not> TAS e (tas_calls l - 1) \<and>
        delays l \<le> NUM_DELAYS \<and> int (length (slept l)) = delays l \<and>
        int (tas_calls l) \<le> (NUM_DELAYS + 1) * max 1 spd)"
proof (rule s_lock_loop_rule [where I = "counting_inv spd"], goal_cases)
  case 1
  then show ?case by simp
next
  case (2 l)
  then show ?case by (simp add: counting_inv_spin)
next
  case (3 l)
  then show ?case by (simp add: counting_inv_block)
next
  case (4 l)
  have "delays l * max 1 spd + (spins l + 1) \<le> delays l * max 1 spd + max 1 spd"
    using 4 by (simp add: counting_inv_def)
  also have "\<dots> = (delays l + 1) * max 1 spd"
    by (simp add: algebra_simps)
  also have "\<dots> \<le> (NUM_DELAYS + 1) * max 1 spd"
    using 4 by (intro mult_right_mono) (simp_all add: counting_inv_def)
  finally show ?case
    using 4 by (simp add: counting_inv_def)
next
  case (5 l)
  then have "spins l + 1 = max 1 spd" "delays l = NUM_DELAYS"
    by (auto simp: counting_inv_def max_def)
  with 5 show ?case
    by (simp add: counting_inv_def algebra_simps)
qed

lemma delay_increment_nonneg:
  assumes "0 < MAX_RANDOM_VALUE e" "0 \<le> r" "0 \<le> c"
  shows "0 \<le> delay_increment e c r"
proof -
  have "0 \<le> real_of_int c * (real_of_int r / real_of_int (MAX_RANDOM_VALUE e)) + 0.5"
    using assms by simp
  then show ?thesis
    by (simp add: delay_increment_def random_fraction_def double_to_int_def)
qed

lemma delay_increment_le:
  assumes "0 < MAX_RANDOM_VALUE e" "0 \<le> r" "r \<le> MAX_RANDOM_VALUE e" "0 \<le> c"
  shows "delay_increment e c r \<le> c"
proof -
  let ?U = "real_of_int r / real_of_int (MAX_RANDOM_VALUE e)"
  have U: "0 \<le> ?U" "?U \<le> 1"
    using assms by simp_all
  have "real_of_int c * ?U \<le> real_of_int c"
    using U(2) assms(4) by (intro mult_left_le) simp_all
  then have "real_of_int c * ?U + 0.5 < real_of_int (c + 1)"
    by simp
  then have "\<lfloor>real_of_int c * ?U + 0.5\<rfloor> < c + 1"
    by (simp only: floor_less_iff)
  moreover have "0 \<le> real_of_int c * ?U + 0.5"
    using assms by simp
  ultimately show ?thesis
    by (simp add: delay_increment_def random_fraction_def double_to_int_def)
qed

lemma increase_delay_le: "increase_delay e c r \<le> MAX_DELAY_MSEC"
  by (simp add: increase_delay_def Let_def s_lock_constants)

lemma increase_delay_ge:
  assumes "0 < MAX_RANDOM_VALUE e" "0 \<le> r" "MIN_DELAY_MSEC \<le> c"
  shows "MIN_DELAY_MSEC \<le> increase_delay e c r"
  using delay_increment_nonneg [of e r c] assms
  by (simp add: increase_delay_def Let_def s_lock_constants)

lemma delay_inv_entry: "delay_inv s_lock_entry"
  by (simp add: delay_inv_def s_lock_entry_def s_lock_constants)

lemma delay_inv_block:
  assumes "valid_environment e" "delay_inv l"
    and "cur_delay l' = cur_delay l" "slept l' = slept l"
  shows "delay_inv (block_process e l')"
proof -
  let ?c = "if cur_delay l = 0 then MIN_DELAY_MSEC else cur_delay l"
  have c: "MIN_DELAY_MSEC \<le> ?c" "?c \<le> MAX_DELAY_MSEC"
    using assms(2) by (auto simp: delay_inv_def s_lock_constants split: if_splits)
  have "MIN_DELAY_MSEC \<le> increase_delay e ?c (random e (random_calls l'))"
    using assms(1) c(1) by (intro increase_delay_ge) (simp_all add: valid_environment_def)
  with c assms(2-) show ?thesis
    by (auto simp: delay_inv_def increase_delay_le split: if_splits)
qed

lemma loop_delays:
  assumes "valid_environment e" "delay_inv l0"
  shows "case s_lock_loop e spd l0 of
           Inl (PANIC_stuck_spinlock l) \<Rightarrow> delay_inv l
         | Inr l \<Rightarrow> delay_inv l"
proof (rule s_lock_loop_rule [where I = delay_inv], goal_cases)
  case 1
  show ?case by (rule assms(2))
next
  case (2 l)
  then show ?case by (simp add: delay_inv_def)
next
  case (3 l)
  then show ?case
    using assms(1) by (intro delay_inv_block [where l = l]) simp_all
next
  case (4 l)
  then show ?case by (simp add: delay_inv_def)
next
  case (5 l)
  then show ?case by (simp add: delay_inv_def)
qed

lemma s_lock_delay_inv:
  assumes "valid_environment e" "s_lock e b = Inr (b', l)"
  shows "delay_inv l"
  using loop_delays [OF assms(1) delay_inv_entry, of "spins_per_delay b"] assms(2)
  by (auto simp: s_lock_def split: sum.splits)

lemma s_lock_delay_inv_stuck:
  assumes "valid_environment e" "s_lock e b = Inl (PANIC_stuck_spinlock l)"
  shows "delay_inv l"
  using loop_delays [OF assms(1) delay_inv_entry, of "spins_per_delay b"] assms(2)
  by (auto simp: s_lock_def split: sum.splits)

section \<open>Example runs\<close>

lemma valid_free_after: "valid_environment (free_after n)"
  by (simp add: valid_environment_def free_after_def)

lemmas s_lock_eval =
  s_lock_def s_lock_entry_def s_lock_loop.simps s_lock_stuck_def block_process_def pg_usleep_def
  increase_delay_def delay_increment_def random_fraction_def double_to_int_def
  adjust_spins_per_delay_def
  Min_macro_def Max_macro_def Let_def s_lock_constants

lemma run_free_after_3:
  "s_lock (free_after 3) \<lparr>spins_per_delay = 100\<rparr> =
     Inr (\<lparr>spins_per_delay = 200\<rparr>,
          \<lparr>spins = 3, delays = 0, cur_delay = 0, tas_calls = 4, random_calls = 0, slept = []\<rparr>)"
  by (simp add: free_after_def s_lock_eval)

lemma run_free_after_25:
  "s_lock (free_after 25) \<lparr>spins_per_delay = 11\<rparr> =
     Inr (\<lparr>spins_per_delay = 10\<rparr>,
          \<lparr>spins = 3, delays = 2, cur_delay = 3, tas_calls = 26, random_calls = 2, slept = [1, 2]\<rparr>)"
  by (simp add: free_after_def s_lock_eval)

lemma run_free_after_0:
  "s_lock (free_after 0) \<lparr>spins_per_delay = 5000\<rparr> =
     Inr (\<lparr>spins_per_delay = 5000\<rparr>,
          \<lparr>spins = 0, delays = 0, cur_delay = 0, tas_calls = 1, random_calls = 0, slept = []\<rparr>)"
  by (simp add: free_after_def s_lock_eval)

section \<open>The shared estimate\<close>

lemma int32_id: "- 2147483648 \<le> x \<Longrightarrow> x < 2147483648 \<Longrightarrow> int32 x = x"
  unfolding int32_def by (simp add: mod_pos_pos_trivial)

text \<open>
  C5, as the claim states it: for all integer inputs the result is the floor of
  \<open>(shared * 15 + local) / 16\<close>. This fails for a negative sum: with the shared value
  \<open>-10\<close> and the local value 100 the sum is \<open>-50\<close>, C's division gives \<open>-3\<close>, the floor
  is \<open>-4\<close>.
\<close>

theorem recompute_spins_per_delay_not_floor:
  "recompute_spins_per_delay (- 10) \<lparr>spins_per_delay = 100\<rparr> = - 3 \<and>
   ((- 10) * 15 + 100) div 16 = (- 4 :: int)"
  by (simp add: recompute_spins_per_delay_def int32_def c_div_def)

text \<open>
  C5, amended: when neither the product nor the sum leaves the range of a 32-bit \<open>int\<close>,
  \<open>recompute_spins_per_delay\<close> returns the quotient of \<open>shared * 15 + local\<close> by 16
  truncated towards zero: the floor \<open>(shared * 15 + local) div 16\<close> when the sum is not
  negative, and the negated floor of the negated sum otherwise. It returns 100 for
  shared 100 and local 100, and 938 for shared 1000 and local 10.
\<close>

theorem recompute_spins_per_delay_truncates:
  "(- 2147483648 \<le> s * 15 \<and> s * 15 < 2147483648 \<and>
    - 2147483648 \<le> s * 15 + v \<and> s * 15 + v < 2147483648
      \<longrightarrow> recompute_spins_per_delay s \<lparr>spins_per_delay = v\<rparr> =
          (if 0 \<le> s * 15 + v then (s * 15 + v) div 16 else - ((- (s * 15 + v)) div 16)))
   \<and> recompute_spins_per_delay 100 \<lparr>spins_per_delay = 100\<rparr> = 100
   \<and> recompute_spins_per_delay 1000 \<lparr>spins_per_delay = 10\<rparr> = 938"
  by (simp add: recompute_spins_per_delay_def int32_id c_div_def)

theorem recompute_spins_per_delay_truncates_witness:
  "recompute_spins_per_delay 500 \<lparr>spins_per_delay = 999\<rparr> = 531 \<and>
   recompute_spins_per_delay (- 1) \<lparr>spins_per_delay = 0\<rparr> = 0"
  using recompute_spins_per_delay_truncates [of 500 999]
    recompute_spins_per_delay_truncates [of "- 1" 0]
  by simp

section \<open>Waiting for the lock\<close>

text \<open>
  C2: when every evaluation of \<open>TAS\<close> fails, \<open>s_lock\<close> ends in \<open>s_lock_stuck\<close>, whatever
  \<open>spins_per_delay\<close> is: at that moment it has slept exactly \<open>NUM_DELAYS\<close> = 1000 times,
  not fewer, \<open>delays\<close> has just become 1001, and \<open>TAS\<close> has been evaluated
  \<open>1001 * max 1 spins_per_delay\<close> times. The result is the error of \<open>s_lock_stuck\<close>: no
  value comes back to the caller and \<open>spins_per_delay\<close> is not adjusted.
\<close>

theorem s_lock_stuck_after_NUM_DELAYS:
  assumes "\<forall>k. TAS e k"
  shows "\<exists>l. s_lock e b = Inl (PANIC_stuck_spinlock l) \<and>
             int (length (slept l)) = NUM_DELAYS \<and> delays l = NUM_DELAYS + 1 \<and>
             int (tas_calls l) = (NUM_DELAYS + 1) * max 1 (spins_per_delay b)"
  using loop_counts [OF counting_inv_entry, of e "spins_per_delay b"] assms
  by (auto simp: s_lock_def)

theorem s_lock_stuck_after_NUM_DELAYS_witness:
  "\<exists>l. s_lock always_locked \<lparr>spins_per_delay = 100\<rparr> = Inl (PANIC_stuck_spinlock l) \<and>
       length (slept l) = 1000 \<and> delays l = 1001 \<and> tas_calls l = 100100"
proof -
  have "\<forall>k. TAS always_locked k"
    by (simp add: always_locked_def)
  from s_lock_stuck_after_NUM_DELAYS [OF this, of "\<lparr>spins_per_delay = 100\<rparr>"]
  obtain l where "s_lock always_locked \<lparr>spins_per_delay = 100\<rparr> = Inl (PANIC_stuck_spinlock l)"
    and "int (length (slept l)) = 1000" and "delays l = 1001" and "int (tas_calls l) = 100100"
    by (auto simp: NUM_DELAYS_def)
  then show ?thesis
    by (intro exI [of _ l]) simp
qed

text \<open>
  C6: \<open>s_lock\<close> ends for every sequence of answers of \<open>TAS\<close>, every sequence of random
  numbers and every \<open>spins_per_delay\<close>. Either it ends in \<open>s_lock_stuck\<close>, after 1000 sleeps
  and \<open>1001 * max 1 spins_per_delay\<close> evaluations of \<open>TAS\<close>, all failed; or it returns
  after an evaluation of \<open>TAS\<close> that succeeded, with at most 1000 sleeps and at most
  \<open>1001 * max 1 spins_per_delay\<close> evaluations of \<open>TAS\<close>.
\<close>

theorem s_lock_terminates:
  "(\<exists>l. s_lock e b = Inl (PANIC_stuck_spinlock l) \<and> TAS e (tas_calls l - 1) \<and>
        delays l = NUM_DELAYS + 1 \<and> int (length (slept l)) = NUM_DELAYS \<and>
        int (tas_calls l) = (NUM_DELAYS + 1) * max 1 (spins_per_delay b)) \<or>
   (\<exists>b' l. s_lock e b = Inr (b', l) \<and> \<not> TAS e (tas_calls l - 1) \<and>
        delays l \<le> NUM_DELAYS \<and> int (length (slept l)) = delays l \<and>
        int (tas_calls l) \<le> (NUM_DELAYS + 1) * max 1 (spins_per_delay b))"
  using loop_counts [OF counting_inv_entry, of e "spins_per_delay b"]
  by (auto simp: s_lock_def)

section \<open>The adjustment of the estimate\<close>

lemma adjust_in_bounds:
  "MIN_SPINS_PER_DELAY \<le> spins_per_delay b \<Longrightarrow> spins_per_delay b \<le> MAX_SPINS_PER_DELAY \<Longrightarrow>
   MIN_SPINS_PER_DELAY \<le> spins_per_delay (adjust_spins_per_delay l b) \<and>
   spins_per_delay (adjust_spins_per_delay l b) \<le> MAX_SPINS_PER_DELAY"
  by (simp add: adjust_spins_per_delay_def Min_macro_def Max_macro_def s_lock_constants)

text \<open>
  C3: if \<open>spins_per_delay\<close> is between 10 and 1000 before a call of \<open>s_lock\<close> and the call
  returns, it is between 10 and 1000 after the call, whatever the answers of \<open>TAS\<close> and
  the random numbers were.
\<close>

theorem spins_per_delay_stays_in_bounds:
  assumes "MIN_SPINS_PER_DELAY \<le> spins_per_delay b" "spins_per_delay b \<le> MAX_SPINS_PER_DELAY"
    and "s_lock e b = Inr (b', l)"
  shows "MIN_SPINS_PER_DELAY \<le> spins_per_delay b' \<and> spins_per_delay b' \<le> MAX_SPINS_PER_DELAY"
  using assms adjust_in_bounds [of b]
  by (auto simp: s_lock_def split: sum.splits)

theorem spins_per_delay_stays_in_bounds_witness:
  "MIN_SPINS_PER_DELAY \<le> 11 \<and> 11 \<le> MAX_SPINS_PER_DELAY \<and>
   s_lock (free_after 25) \<lparr>spins_per_delay = 11\<rparr> =
     Inr (\<lparr>spins_per_delay = 10\<rparr>,
          \<lparr>spins = 3, delays = 2, cur_delay = 3, tas_calls = 26, random_calls = 2, slept = [1, 2]\<rparr>) \<and>
   MIN_SPINS_PER_DELAY \<le> spins_per_delay \<lparr>spins_per_delay = 10\<rparr> \<and>
   spins_per_delay \<lparr>spins_per_delay = 10\<rparr> \<le> MAX_SPINS_PER_DELAY"
  using spins_per_delay_stays_in_bounds [OF _ _ run_free_after_25] run_free_after_25
  by (simp add: s_lock_constants)

text \<open>
  C4: for an estimate \<open>V\<close> with \<open>10 < V < 1000\<close> and a valid environment, a call of
  \<open>s_lock\<close> that returns without having slept has \<open>cur_delay = 0\<close> at the exit of the loop
  and sets \<open>spins_per_delay\<close> to \<open>min (V + 100) 1000\<close>; a call that returns after at least
  one sleep has \<open>cur_delay \<noteq> 0\<close> and sets it to \<open>max (V - 1) 10\<close>.
\<close>

theorem asymmetric_adjustment:
  assumes "valid_environment e"
    and "MIN_SPINS_PER_DELAY < spins_per_delay b" "spins_per_delay b < MAX_SPINS_PER_DELAY"
    and "s_lock e b = Inr (b', l)"
  shows "(slept l = [] \<longrightarrow> cur_delay l = 0 \<and>
            spins_per_delay b' = min (spins_per_delay b + 100) MAX_SPINS_PER_DELAY) \<and>
         (slept l \<noteq> [] \<longrightarrow> cur_delay l \<noteq> 0 \<and>
            spins_per_delay b' = max (spins_per_delay b - 1) MIN_SPINS_PER_DELAY)"
proof -
  have "delay_inv l"
    using assms(1,4) by (rule s_lock_delay_inv)
  then have "cur_delay l = 0 \<longleftrightarrow> slept l = []"
    by (auto simp: delay_inv_def MIN_DELAY_MSEC_def split: if_splits)
  moreover have "b' = adjust_spins_per_delay l b"
    using assms(4) by (auto simp: s_lock_def split: sum.splits)
  ultimately show ?thesis
    using assms(2,3)
    by (simp add: adjust_spins_per_delay_def Min_macro_def Max_macro_def s_lock_constants)
qed

theorem asymmetric_adjustment_witness:
  "valid_environment (free_after 3) \<and> valid_environment (free_after 25) \<and>
   spins_per_delay (fst (projr (s_lock (free_after 3) \<lparr>spins_per_delay = 100\<rparr>))) = 200 \<and>
   slept (snd (projr (s_lock (free_after 3) \<lparr>spins_per_delay = 100\<rparr>))) = [] \<and>
   spins_per_delay (fst (projr (s_lock (free_after 25) \<lparr>spins_per_delay = 11\<rparr>))) = 10 \<and>
   slept (snd (projr (s_lock (free_after 25) \<lparr>spins_per_delay = 11\<rparr>))) = [1, 2]"
  using asymmetric_adjustment [OF valid_free_after _ _ run_free_after_3]
    asymmetric_adjustment [OF valid_free_after _ _ run_free_after_25]
  by (simp add: valid_free_after run_free_after_3 run_free_after_25 s_lock_constants)

lemma repeated_increase_in_bounds:
  assumes "valid_environment e"
  shows "MIN_DELAY_MSEC \<le> c \<Longrightarrow> c \<le> MAX_DELAY_MSEC \<Longrightarrow>
         MIN_DELAY_MSEC \<le> fold (\<lambda>k c. increase_delay e c (random e k)) ks c \<and>
         fold (\<lambda>k c. increase_delay e c (random e k)) ks c \<le> MAX_DELAY_MSEC"
proof (induction ks arbitrary: c)
  case Nil
  then show ?case by simp
next
  case (Cons k ks)
  have "MIN_DELAY_MSEC \<le> increase_delay e c (random e k)"
    using assms Cons.prems(1) by (intro increase_delay_ge) (simp_all add: valid_environment_def)
  then show ?case
    using Cons.IH [of "increase_delay e c (random e k)"] by (simp add: increase_delay_le)
qed

lemma repeated_increase_example:
  "fold (\<lambda>k c. increase_delay (free_after n) c (random (free_after n) k)) [0, 1, 2] 300 = 1"
  by (simp add: free_after_def increase_delay_def delay_increment_def random_fraction_def
      double_to_int_def Let_def s_lock_constants)

text \<open>
  C7: in a valid environment every delay slept by \<open>s_lock\<close>, in a call that returns as
  in one that ends in \<open>s_lock_stuck\<close>, lies between \<open>MIN_DELAY_MSEC\<close> = 1 and
  \<open>MAX_DELAY_MSEC\<close> = 1000; and any number of random increases, started from a delay in
  that range, ends at a delay in that range, since a sum above the maximum is replaced
  by the minimum before it is slept.
\<close>

theorem slept_delays_in_bounds:
  assumes "valid_environment e"
  shows "(s_lock e b = Inl (PANIC_stuck_spinlock l) \<or> s_lock e b = Inr (b', l) \<longrightarrow>
            (\<forall>d \<in> set (slept l). MIN_DELAY_MSEC \<le> d \<and> d \<le> MAX_DELAY_MSEC)) \<and>
         (MIN_DELAY_MSEC \<le> c \<and> c \<le> MAX_DELAY_MSEC \<longrightarrow>
            MIN_DELAY_MSEC \<le> fold (\<lambda>k c. increase_delay e c (random e k)) ks c \<and>
            fold (\<lambda>k c. increase_delay e c (random e k)) ks c \<le> MAX_DELAY_MSEC)"
proof (intro conjI impI)
  assume "s_lock e b = Inl (PANIC_stuck_spinlock l) \<or> s_lock e b = Inr (b', l)"
  then have "delay_inv l"
    using assms s_lock_delay_inv s_lock_delay_inv_stuck by blast
  then show "\<forall>d \<in> set (slept l). MIN_DELAY_MSEC \<le> d \<and> d \<le> MAX_DELAY_MSEC"
    by (simp add: delay_inv_def)
next
  assume c: "MIN_DELAY_MSEC \<le> c \<and> c \<le> MAX_DELAY_MSEC"
  then show "MIN_DELAY_MSEC \<le> fold (\<lambda>k c. increase_delay e c (random e k)) ks c"
    using repeated_increase_in_bounds [OF assms, of c ks] by simp
  from c show "fold (\<lambda>k c. increase_delay e c (random e k)) ks c \<le> MAX_DELAY_MSEC"
    using repeated_increase_in_bounds [OF assms, of c ks] by simp
qed

theorem slept_delays_in_bounds_witness:
  "valid_environment (free_after 25) \<and>
   slept (snd (projr (s_lock (free_after 25) \<lparr>spins_per_delay = 11\<rparr>))) = [1, 2] \<and>
   MIN_DELAY_MSEC \<le> 1 \<and> 2 \<le> MAX_DELAY_MSEC \<and>
   fold (\<lambda>k c. increase_delay (free_after 25) c (random (free_after 25) k)) [0, 1, 2] 300 = 1"
proof -
  have "\<forall>d \<in> set [1, 2]. MIN_DELAY_MSEC \<le> d \<and> d \<le> MAX_DELAY_MSEC"
    using slept_delays_in_bounds [OF valid_free_after, of 25 "\<lparr>spins_per_delay = 11\<rparr>"
      "\<lparr>spins = 3, delays = 2, cur_delay = 3, tas_calls = 26, random_calls = 2, slept = [1, 2]\<rparr>"
      "\<lparr>spins_per_delay = 10\<rparr>"]
    by (simp add: run_free_after_25)
  then have "MIN_DELAY_MSEC \<le> 1 \<and> 2 \<le> MAX_DELAY_MSEC"
    by (simp add: MIN_DELAY_MSEC_def)
  moreover have "slept (snd (projr (s_lock (free_after 25) \<lparr>spins_per_delay = 11\<rparr>))) = [1, 2]"
    by (simp add: run_free_after_25)
  ultimately show ?thesis
    using valid_free_after [of 25] repeated_increase_example [of 25] by blast
qed

lemma s_lock_immediate:
  "\<not> TAS e 0 \<Longrightarrow>
   s_lock e b = Inr (adjust_spins_per_delay s_lock_entry b, s_lock_entry\<lparr>tas_calls := 1\<rparr>)"
  by (simp add: s_lock_def s_lock_loop_acquire s_lock_entry_def adjust_spins_per_delay_def)

text \<open>
  C9: \<open>set_spins_per_delay v\<close> stores \<open>v\<close> as it is, for every \<open>v\<close>. When the value stored
  is above \<open>MAX_SPINS_PER_DELAY\<close>, a call of \<open>s_lock\<close> that leaves the loop with
  \<open>cur_delay = 0\<close> leaves it unchanged; such a call exists: the one whose first \<open>TAS\<close>
  succeeds.
\<close>

theorem set_spins_per_delay_unclamped:
  "spins_per_delay (set_spins_per_delay v b) = v \<and>
   (MAX_SPINS_PER_DELAY < v \<and> s_lock e (set_spins_per_delay v b) = Inr (b', l) \<and> cur_delay l = 0
      \<longrightarrow> spins_per_delay b' = v) \<and>
   (MAX_SPINS_PER_DELAY < v \<and> \<not> TAS e 0
      \<longrightarrow> s_lock e (set_spins_per_delay v b) =
            Inr (set_spins_per_delay v b, s_lock_entry\<lparr>tas_calls := 1\<rparr>))"
proof (intro conjI impI)
  show "spins_per_delay (set_spins_per_delay v b) = v"
    by (simp add: set_spins_per_delay_def)
next
  assume "MAX_SPINS_PER_DELAY < v \<and> s_lock e (set_spins_per_delay v b) = Inr (b', l) \<and> cur_delay l = 0"
  then show "spins_per_delay b' = v"
    by (auto simp: s_lock_def adjust_spins_per_delay_def set_spins_per_delay_def split: sum.splits)
next
  assume "MAX_SPINS_PER_DELAY < v \<and> \<not> TAS e 0"
  then show "s_lock e (set_spins_per_delay v b) =
      Inr (set_spins_per_delay v b, s_lock_entry\<lparr>tas_calls := 1\<rparr>)"
    by (simp add: s_lock_immediate adjust_spins_per_delay_def set_spins_per_delay_def s_lock_entry_def)
qed

theorem set_spins_per_delay_unclamped_witness:
  "spins_per_delay (set_spins_per_delay (- 7) \<lparr>spins_per_delay = 100\<rparr>) = - 7 \<and>
   MAX_SPINS_PER_DELAY < 5000 \<and> \<not> TAS (free_after 0) 0 \<and>
   s_lock (free_after 0) (set_spins_per_delay 5000 \<lparr>spins_per_delay = 100\<rparr>) =
     Inr (\<lparr>spins_per_delay = 5000\<rparr>,
          \<lparr>spins = 0, delays = 0, cur_delay = 0, tas_calls = 1, random_calls = 0, slept = []\<rparr>)"
  using set_spins_per_delay_unclamped [of "- 7" "\<lparr>spins_per_delay = 100\<rparr>"]
    set_spins_per_delay_unclamped [of 5000 "\<lparr>spins_per_delay = 100\<rparr>" "free_after 0"]
  by (simp add: set_spins_per_delay_def s_lock_entry_def free_after_def MAX_SPINS_PER_DELAY_def)

lemma adjust_changes:
  "MIN_SPINS_PER_DELAY < spins_per_delay b \<Longrightarrow> spins_per_delay b < MAX_SPINS_PER_DELAY \<Longrightarrow>
   spins_per_delay (adjust_spins_per_delay l b) \<noteq> spins_per_delay b"
  by (simp add: adjust_spins_per_delay_def Min_macro_def Max_macro_def s_lock_constants)

text \<open>
  C10: when the first \<open>TAS\<close> inside \<open>s_lock\<close> succeeds, the call returns after this single
  evaluation, without a failed try or a sleep, and still adjusts the estimate: an
  estimate of at most \<open>MAX_SPINS_PER_DELAY\<close> becomes \<open>min (spins_per_delay + 100) 1000\<close>.
  And no call that returns leaves an estimate strictly between 10 and 1000 unchanged.
\<close>

theorem update_on_immediate_success:
  "(\<not> TAS e 0 \<and> spins_per_delay b \<le> MAX_SPINS_PER_DELAY \<longrightarrow>
      s_lock e b =
        Inr (b\<lparr>spins_per_delay := min (spins_per_delay b + 100) MAX_SPINS_PER_DELAY\<rparr>,
             s_lock_entry\<lparr>tas_calls := 1\<rparr>)) \<and>
   (MIN_SPINS_PER_DELAY < spins_per_delay b \<and> spins_per_delay b < MAX_SPINS_PER_DELAY \<and>
    s_lock e b = Inr (b', l) \<longrightarrow> spins_per_delay b' \<noteq> spins_per_delay b)"
proof (intro conjI impI)
  assume "\<not> TAS e 0 \<and> spins_per_delay b \<le> MAX_SPINS_PER_DELAY"
  then show "s_lock e b =
      Inr (b\<lparr>spins_per_delay := min (spins_per_delay b + 100) MAX_SPINS_PER_DELAY\<rparr>,
           s_lock_entry\<lparr>tas_calls := 1\<rparr>)"
    by (simp add: s_lock_immediate adjust_spins_per_delay_def s_lock_entry_def Min_macro_def
        s_lock_constants)
next
  assume "MIN_SPINS_PER_DELAY < spins_per_delay b \<and> spins_per_delay b < MAX_SPINS_PER_DELAY \<and>
    s_lock e b = Inr (b', l)"
  then show "spins_per_delay b' \<noteq> spins_per_delay b"
    using adjust_changes [of b] by (auto simp: s_lock_def split: sum.splits)
qed

theorem update_on_immediate_success_witness:
  "\<not> TAS (free_after 0) 0 \<and> 950 \<le> MAX_SPINS_PER_DELAY \<and>
   s_lock (free_after 0) \<lparr>spins_per_delay = 950\<rparr> =
     Inr (\<lparr>spins_per_delay = 1000\<rparr>,
          \<lparr>spins = 0, delays = 0, cur_delay = 0, tas_calls = 1, random_calls = 0, slept = []\<rparr>) \<and>
   spins_per_delay \<lparr>spins_per_delay = 1000\<rparr> \<noteq> spins_per_delay \<lparr>spins_per_delay = 950\<rparr>"
  using update_on_immediate_success [of "free_after 0" "\<lparr>spins_per_delay = 950\<rparr>"]
  by (simp add: free_after_def s_lock_entry_def s_lock_constants)

section \<open>The delays and the backoff sequencer\<close>

lemma random_fraction_range:
  "valid_environment e \<Longrightarrow>
   0 \<le> random_fraction e (random e k) \<and> random_fraction e (random e k) \<le> 1"
  by (simp add: valid_environment_def random_fraction_def)

lemma increase_delay_spec:
  assumes "0 \<le> U" "MIN_DELAY_MSEC \<le> c" "random_fraction e r = U"
  shows "increase_delay e c r = spec_backoff_step c U"
proof -
  have "0 \<le> real_of_int c * U"
    using assms by (simp add: MIN_DELAY_MSEC_def)
  then have "double_to_int (real_of_int c * U + 0.5) = round (real_of_int c * U)"
    by (simp add: double_to_int_def round_def)
  moreover have "c \<noteq> 0"
    using assms(2) by (simp add: MIN_DELAY_MSEC_def)
  ultimately show ?thesis
    using assms(3) by (simp add: increase_delay_def delay_increment_def spec_backoff_step_def)
qed

lemma spec_backoff_step_below_1:
  assumes "0 \<le> U" "U \<le> 1" "MIN_DELAY_MSEC \<le> c"
  shows "\<exists>U'. 0 \<le> U' \<and> U' < 1 \<and> spec_backoff_step c U' = spec_backoff_step c U"
proof (cases "U < 1")
  case True
  with assms(1) show ?thesis by blast
next
  case False
  with assms(2) have U: "U = 1" by simp
  have c: "1 \<le> c" using assms(3) by (simp add: MIN_DELAY_MSEC_def)
  let ?U' = "1 - 1 / (2 * real_of_int c)"
  have "real_of_int c * ?U' = real_of_int c - 1 / 2"
    using c by (simp add: field_simps)
  then have "round (real_of_int c * ?U') = c"
    by (simp add: round_def)
  then have "spec_backoff_step c ?U' = spec_backoff_step c U"
    by (simp add: spec_backoff_step_def U)
  moreover have "0 \<le> ?U'" "?U' < 1"
    using c by (simp_all add: field_simps)
  ultimately show ?thesis by blast
qed

lemma spec_sleeps_snoc:
  "spec_sleeps c (Us @ [U]) =
     spec_sleeps c Us @ [spec_backoff_step (last (c # spec_sleeps c Us)) U]"
  by (induction Us arbitrary: c) simp_all

lemma length_spec_sleeps [simp]: "length (spec_sleeps c Us) = length Us"
  by (induction Us arbitrary: c) simp_all

lemma spec_sleeps_take: "spec_sleeps c (take n Us) = take n (spec_sleeps c Us)"
proof (induction Us arbitrary: c n)
  case Nil
  show ?case by simp
next
  case (Cons U Us)
  then show ?case by (cases n) simp_all
qed

lemma fractions_Suc:
  "fractions e U0 (Suc n) = U0 # map (\<lambda>k. random_fraction e (random e k)) [0..<n]"
  by (simp add: fractions_def take_map)

lemma fractions_Suc_Suc:
  "fractions e U0 (Suc (Suc n)) = fractions e U0 (Suc n) @ [random_fraction e (random e n)]"
  by (simp add: fractions_Suc)

lemma take_fractions_Suc: "take n (fractions e U0 (Suc n)) = fractions e U0 n"
  by (simp add: fractions_Suc) (simp add: fractions_def)

lemma trace_inv_entry: "trace_inv e U0 s_lock_entry"
  by (simp add: trace_inv_def s_lock_entry_def)

lemma trace_inv_block:
  assumes "valid_environment e" "trace_inv e U0 l"
    and "cur_delay l' = cur_delay l" "slept l' = slept l" "random_calls l' = random_calls l"
  shows "trace_inv e U0 (block_process e l')"
proof (cases "slept l = []")
  case True
  let ?U = "random_fraction e (random e 0)"
  have "increase_delay e MIN_DELAY_MSEC (random e 0) = spec_backoff_step MIN_DELAY_MSEC ?U"
    using random_fraction_range [OF assms(1), of 0] by (intro increase_delay_spec) simp_all
  moreover have "MIN_DELAY_MSEC \<le> increase_delay e MIN_DELAY_MSEC (random e 0)"
    using assms(1) by (intro increase_delay_ge) (simp_all add: valid_environment_def)
  moreover have "spec_backoff_step 0 U0 = MIN_DELAY_MSEC"
    by (simp add: spec_backoff_step_def)
  ultimately show ?thesis
    using True assms(2-) by (simp add: trace_inv_def fractions_Suc)
next
  case False
  let ?n = "random_calls l" and ?c = "cur_delay l"
  let ?U = "random_fraction e (random e ?n)"
  from False assms(2) have c: "MIN_DELAY_MSEC \<le> ?c"
    and tr: "slept l @ [?c] = spec_sleeps 0 (fractions e U0 (Suc ?n))"
    and n: "?n = length (slept l)"
    by (simp_all add: trace_inv_def)
  have c0: "?c \<noteq> 0"
    using c by (simp add: MIN_DELAY_MSEC_def)
  have step: "increase_delay e ?c (random e ?n) = spec_backoff_step ?c ?U"
    using random_fraction_range [OF assms(1), of ?n] c by (intro increase_delay_spec) simp_all
  have ge: "MIN_DELAY_MSEC \<le> increase_delay e ?c (random e ?n)"
    using assms(1) c by (intro increase_delay_ge) (simp_all add: valid_environment_def)
  have "spec_sleeps 0 (fractions e U0 (Suc (Suc ?n))) =
      spec_sleeps 0 (fractions e U0 (Suc ?n)) @
        [spec_backoff_step (last (0 # spec_sleeps 0 (fractions e U0 (Suc ?n)))) ?U]"
    by (simp only: fractions_Suc_Suc spec_sleeps_snoc)
  also have "\<dots> = (slept l @ [?c]) @ [spec_backoff_step ?c ?U]"
    by (simp add: tr [symmetric])
  finally have "spec_sleeps 0 (fractions e U0 (Suc (Suc ?n))) =
      (slept l @ [?c]) @ [increase_delay e ?c (random e ?n)]"
    by (simp add: step)
  with c0 ge n assms(3-) show ?thesis
    by (simp add: trace_inv_def)
qed

lemma loop_trace:
  assumes "valid_environment e" "trace_inv e U0 l0"
  shows "case s_lock_loop e spd l0 of
           Inl (PANIC_stuck_spinlock l) \<Rightarrow> trace_inv e U0 l
         | Inr l \<Rightarrow> trace_inv e U0 l"
proof (rule s_lock_loop_rule [where I = "trace_inv e U0"], goal_cases)
  case 1
  show ?case by (rule assms(2))
next
  case (2 l)
  then show ?case by (simp add: trace_inv_def)
next
  case (3 l)
  then show ?case
    using assms(1) by (intro trace_inv_block [where l = l]) simp_all
next
  case (4 l)
  then show ?case by (simp add: trace_inv_def)
next
  case (5 l)
  then show ?case by (simp add: trace_inv_def)
qed

lemma trace_inv_slept:
  assumes "trace_inv e U0 l"
  shows "slept l = spec_sleeps 0 (fractions e U0 (length (slept l)))"
proof (cases "slept l = []")
  case True
  then show ?thesis by (simp add: fractions_def)
next
  case False
  let ?n = "length (slept l)"
  from False assms have "slept l @ [cur_delay l] = spec_sleeps 0 (fractions e U0 (Suc ?n))"
    by (simp add: trace_inv_def)
  then have "take ?n (spec_sleeps 0 (fractions e U0 (Suc ?n))) = slept l"
    by (metis append_eq_conv_conj)
  then show ?thesis
    by (simp add: spec_sleeps_take [symmetric] take_fractions_Suc)
qed

lemma s_lock_trace_inv:
  assumes "valid_environment e"
    and "s_lock e b = Inl (PANIC_stuck_spinlock l) \<or> s_lock e b = Inr (b', l)"
  shows "trace_inv e U0 l"
  using loop_trace [OF assms(1) trace_inv_entry, of U0 "spins_per_delay b"] assms(2)
  by (auto simp: s_lock_def split: sum.splits)

lemma spec_sleeps_example: "spec_sleeps 0 (fractions (free_after n) 0 2) = [1, 2]"
  by (simp add: eval_nat_numeral fractions_Suc)
    (simp add: free_after_def random_fraction_def spec_backoff_step_def
      round_def Let_def s_lock_constants)

lemma spec_backoff_step_example:
  "spec_backoff_step 2 (random_fraction (free_after n) (random (free_after n) 0)) = 3"
  by (simp add: free_after_def random_fraction_def spec_backoff_step_def
      round_def Let_def s_lock_constants)

text \<open>
  C8: in a valid environment the delays slept by \<open>s_lock\<close> are those of the
  specification's step function run from the delay 0: the first step turns 0 into
  \<open>MIN_DELAY_MSEC\<close>, and every later step turns the delay \<open>c\<close> slept last into
  \<open>c + round (c * U)\<close>, or into \<open>MIN_DELAY_MSEC\<close> when that exceeds \<open>MAX_DELAY_MSEC\<close>, where
  \<open>U\<close> is the random number drawn divided by \<open>MAX_RANDOM_VALUE\<close>. The code's increase of a
  delay of at least 1 is this step; \<open>U\<close> lies between 0 and 1, and the result is always
  one that a \<open>U\<close> below 1 gives as well.
\<close>

theorem backoff_refines_spec:
  assumes "valid_environment e"
  shows "(s_lock e b = Inl (PANIC_stuck_spinlock l) \<or> s_lock e b = Inr (b', l) \<longrightarrow>
            slept l = spec_sleeps 0 (fractions e U0 (length (slept l)))) \<and>
         (MIN_DELAY_MSEC \<le> c \<longrightarrow>
            increase_delay e c (random e k) = spec_backoff_step c (random_fraction e (random e k)) \<and>
            0 \<le> random_fraction e (random e k) \<and> random_fraction e (random e k) \<le> 1 \<and>
            (\<exists>U. 0 \<le> U \<and> U < 1 \<and> increase_delay e c (random e k) = spec_backoff_step c U))"
proof (intro conjI impI)
  assume "s_lock e b = Inl (PANIC_stuck_spinlock l) \<or> s_lock e b = Inr (b', l)"
  with assms have "trace_inv e U0 l"
    by (rule s_lock_trace_inv)
  then show "slept l = spec_sleeps 0 (fractions e U0 (length (slept l)))"
    by (rule trace_inv_slept)
next
  let ?U = "random_fraction e (random e k)"
  show range: "0 \<le> ?U" "?U \<le> 1"
    using random_fraction_range [OF assms, of k] by simp_all
  assume c: "MIN_DELAY_MSEC \<le> c"
  with range(1) show step: "increase_delay e c (random e k) = spec_backoff_step c ?U"
    by (intro increase_delay_spec) simp_all
  from spec_backoff_step_below_1 [OF range c]
  show "\<exists>U. 0 \<le> U \<and> U < 1 \<and> increase_delay e c (random e k) = spec_backoff_step c U"
    unfolding step by metis
qed

theorem backoff_refines_spec_witness:
  "valid_environment (free_after 25) \<and>
   slept (snd (projr (s_lock (free_after 25) \<lparr>spins_per_delay = 11\<rparr>))) = [1, 2] \<and>
   spec_sleeps 0 (fractions (free_after 25) 0 2) = [1, 2] \<and>
   increase_delay (free_after 25) 2 (random (free_after 25) 0) = 3 \<and>
   spec_backoff_step 2 (random_fraction (free_after 25) (random (free_after 25) 0)) = 3"
  using backoff_refines_spec [OF valid_free_after, of 25 "\<lparr>spins_per_delay = 11\<rparr>"
      "\<lparr>spins = 3, delays = 2, cur_delay = 3, tas_calls = 26, random_calls = 2, slept = [1, 2]\<rparr>"
      "\<lparr>spins_per_delay = 10\<rparr>" 0 2 0]
  by (simp add: valid_free_after run_free_after_25 spec_sleeps_example
      spec_backoff_step_example MIN_DELAY_MSEC_def)

end
